theory Spec2Isabelle
  imports Main "HOL-Library.Sublist"
begin

section \<open>Python values, errors and dictionaries\<close>

text \<open>
  The module \<open>pubsub/core/callables.py\<close> inspects the signature of a listener. The
  default values that a signature can carry are modelled by a small value type; the
  marker \<open>AUTO_TOPIC\<close> is a Python string, and the code finds it with \<open>==\<close>, that
  is by value.
\<close>

datatype pyvalue = PyNone | PyInt int | PyStr string

definition AUTO_TOPIC :: pyvalue where
  "AUTO_TOPIC = PyStr ''## your listener wants topic object ## (string unlikely to be used by caller)''"

text \<open>
  The value stored for a parameter in \<open>allArgs\<close> / \<open>allKwargs\<close>: an instance of the
  placeholder class \<open>NO_DEFAULT\<close>, or the declared default.
\<close>

datatype arg_default = NO_DEFAULT | Default pyvalue

text \<open>
  \<open>isinstance(item, NO_DEFAULT)\<close>.
\<close>

fun isinstance_NO_DEFAULT :: "arg_default \<Rightarrow> bool" where
  "isinstance_NO_DEFAULT NO_DEFAULT = True"
| "isinstance_NO_DEFAULT (Default v) = False"

text \<open>
  The exceptions of the module. \<open>ListenerMismatchError\<close> keeps the fields its
  constructor assigns: \<open>msg\<close>, \<open>module\<close>, \<open>idStr\<close> and the extra \<open>args\<close>.
\<close>

record ListenerMismatchError =
  msg :: string
  module :: string
  idStr :: string
  args :: "string list"

datatype error =
    ValueError string
  | TypeError string
  | KeyError string
  | IndexError
  | ListenerMismatch ListenerMismatchError

definition bindE :: "error + 'a \<Rightarrow> ('a \<Rightarrow> error + 'b) \<Rightarrow> error + 'b" where
  "bindE m f = (case m of Inl e \<Rightarrow> Inl e | Inr x \<Rightarrow> f x)"

text \<open>
  A Python \<open>dict\<close> keeps its keys in insertion order, and the code depends on that
  order (\<open>allParams\<close>, the scan for the marker), so a dict is an association list:
  \<open>d[k] = v\<close> replaces the value of an existing key where it stands and appends a new
  key, \<open>del d[k]\<close> raises \<open>KeyError\<close> for a missing key.
\<close>

type_synonym 'v pydict = "(string \<times> 'v) list"

definition keys :: "'v pydict \<Rightarrow> string list" where
  "keys d = map fst d"

definition values_of :: "'v pydict \<Rightarrow> 'v list" where
  "values_of d = map snd d"

definition contains_key :: "string \<Rightarrow> 'v pydict \<Rightarrow> bool" where
  "contains_key k d = (k \<in> set (keys d))"

fun dict_set :: "string \<Rightarrow> 'v \<Rightarrow> 'v pydict \<Rightarrow> 'v pydict" where
  "dict_set k v [] = [(k, v)]"
| "dict_set k v (p # ps) = (if fst p = k then (k, v) # ps else p # dict_set k v ps)"

definition dict_remove :: "string \<Rightarrow> 'v pydict \<Rightarrow> 'v pydict" where
  "dict_remove k d = filter (\<lambda>p. fst p \<noteq> k) d"

definition dict_del :: "string \<Rightarrow> 'v pydict \<Rightarrow> error + 'v pydict" where
  "dict_del k d = (if contains_key k d then Inr (dict_remove k d) else Inl (KeyError k))"

text \<open>
  \<open>xs[k]\<close> on a tuple: a negative index counts from the end, an index out of range
  raises \<open>IndexError\<close>.
\<close>

definition py_index :: "'a list \<Rightarrow> int \<Rightarrow> error + 'a" where
  "py_index xs k =
     (let n = int (length xs); j = (if k < 0 then n + k else k)
      in if 0 \<le> j \<and> j < n then Inr (xs ! nat j) else Inl IndexError)"

text \<open>
  \<open>template % (a1, ..., an)\<close> for the templates of this module, which use the directive
  \<open>%s\<close> only: each \<open>%s\<close> takes the next argument; too few or too many arguments
  raise \<open>TypeError\<close>, another directive is outside what the module uses and is reported
  as \<open>ValueError\<close>.
\<close>

fun pyformat :: "string \<Rightarrow> string list \<Rightarrow> error + string" where
  "pyformat [] as =
     (if as = [] then Inr []
      else Inl (TypeError ''not all arguments converted during string formatting''))"
| "pyformat [c] as =
     (if c = CHR ''%'' then Inl (ValueError ''incomplete format'')
      else if as = [] then Inr [c]
      else Inl (TypeError ''not all arguments converted during string formatting''))"
| "pyformat (c # d # t) as =
     (if c = CHR ''%'' then
        (if d = CHR ''s'' then
           (case as of
              [] \<Rightarrow> Inl (TypeError ''not enough arguments for format string'')
            | a # r \<Rightarrow> bindE (pyformat t r) (\<lambda>s. Inr (a @ s)))
         else Inl (ValueError ''unsupported format character''))
      else bindE (pyformat (d # t) as) (\<lambda>s. Inr (c # s)))"

section \<open>Callables\<close>

text \<open>
  What \<open>inspect.getfullargspec\<close> returns for a function or a bound method (the
  annotations, which the module never reads, are left out): the names of the ordinary
  parameters, the name of the catch-all positional parameter or \<open>None\<close>, the name of
  the catch-all keyword parameter or \<open>None\<close>, the tuple of trailing defaults or \<open>None\<close>,
  the keyword-only names, and the dict of keyword-only defaults or \<open>None\<close>. For a bound
  method the receiver is still the first of \<open>args\<close>.
\<close>

record FullArgSpec =
  spec_args :: "string list"
  varargs :: "string option"
  varkw :: "string option"
  defaults :: "pyvalue list option"
  kwonlyargs :: "string list"
  kwonlydefaults :: "(string \<rightharpoonup> pyvalue) option"

text \<open>
  The objects that carry a signature: a function (\<open>isfunction\<close>) with its \<open>__name__\<close>
  and, when it has one, its \<open>__module__\<close>; a bound method (\<open>ismethod\<close>) with the class
  name and module of \<open>__self__\<close> and the name of \<open>__func__\<close>.
\<close>

datatype funcobj =
    Function string "string option" FullArgSpec
  | Method string "string option" string FullArgSpec

text \<open>
  Any value handed to the module: a function or a bound method, or another object,
  with the name of its type, its \<open>__module__\<close> when it has one, and its \<open>__call__\<close>
  attribute when it has one.
\<close>

datatype pyobj =
    Func funcobj
  | Instance string "string option" "funcobj option"

fun getfullargspec :: "funcobj \<Rightarrow> FullArgSpec" where
  "getfullargspec (Function name modl spec) = spec"
| "getfullargspec (Method cls modl name spec) = spec"

fun isfunction :: "pyobj \<Rightarrow> bool" where
  "isfunction (Func (Function name modl spec)) = True"
| "isfunction other = False"

fun ismethod :: "pyobj \<Rightarrow> bool" where
  "ismethod (Func (Method cls modl name spec)) = True"
| "ismethod other = False"

text \<open>
  \<open>hasattr(callable_, '__call__')\<close>, \<open>type(callable_).__name__\<close>, and the
  \<open>__module__\<close> attribute that \<open>getID\<close> looks for (for a bound method, the one of
  \<open>__self__\<close>).
\<close>

fun hasattr_call :: "pyobj \<Rightarrow> bool" where
  "hasattr_call (Func f) = True"
| "hasattr_call (Instance cls modl call) = (call \<noteq> None)"

fun type_name :: "pyobj \<Rightarrow> string" where
  "type_name (Func (Function name modl spec)) = ''function''"
| "type_name (Func (Method cls modl name spec)) = ''method''"
| "type_name (Instance cls modl call) = cls"

fun module_attr :: "pyobj \<Rightarrow> string option" where
  "module_attr (Func (Function name modl spec)) = modl"
| "module_attr (Func (Method cls modl name spec)) = modl"
| "module_attr (Instance cls modl call) = modl"

text \<open>
  \<open>getModule\<close>: the \<open>__module__\<close> attribute when the object has one, else the string
  \<open>'__main__'\<close>. Its argument here is the attribute as an option.
\<close>

definition getModule :: "string option \<Rightarrow> string" where
  "getModule attr = (case attr of Some m \<Rightarrow> m | None \<Rightarrow> ''__main__'')"

fun getID :: "pyobj \<Rightarrow> error + (string \<times> string)" where
  "getID (Func (Method cls modl name spec)) =
     bindE (pyformat ''%s.%s'' [cls, name]) (\<lambda>obj_name. Inr (obj_name, getModule modl))"
| "getID (Func (Function name modl spec)) = Inr (name, getModule modl)"
| "getID (Instance cls modl call) = Inr (cls, getModule modl)"

text \<open>
  \<open>getRawFunction\<close>: the function that carries the signature and the number of
  leading parameters to skip. In Python 3 \<open>ismethod\<close> holds of bound methods only, whose
  \<open>__self__\<close> is never \<open>None\<close>, so the method branch always sets \<open>firstArg = 1\<close>.
\<close>

fun getRawFunction :: "pyobj \<Rightarrow> error + (funcobj \<times> int)" where
  "getRawFunction (Func (Function name modl spec)) = Inr (Function name modl spec, 0)"
| "getRawFunction (Func (Method cls modl name spec)) = Inr (Method cls modl name spec, 1)"
| "getRawFunction (Instance cls modl (Some call)) = Inr (call, 1)"
| "getRawFunction (Instance cls modl None) =
     bindE (pyformat ''type \"%s\" not supported'' [type_name (Instance cls modl None)])
       (\<lambda>m. Inl (ValueError m))"

section \<open>The exception ListenerMismatchError\<close>

definition ListenerMismatchError_init ::
  "string \<Rightarrow> pyobj \<Rightarrow> string list \<Rightarrow> error + ListenerMismatchError" where
  "ListenerMismatchError_init m listener extra =
     bindE (getID listener) (\<lambda>(idS, modl).
     bindE (pyformat ''Listener \"%s\" (from module \"%s\") inadequate: %s'' [idS, modl, m]) (\<lambda>m'.
     Inr \<lparr>msg = m', module = modl, idStr = idS, args = extra\<rparr>))"

definition ListenerMismatchError_str :: "ListenerMismatchError \<Rightarrow> string" where
  "ListenerMismatchError_str e = msg e"

section \<open>The descriptor CallArgsInfo\<close>

record CallArgsInfo =
  allArgs :: "arg_default pydict"
  allKwargs :: "arg_default pydict"
  acceptsAllKwargs :: bool
  acceptsAllUnnamedArgs :: bool
  allParams :: "string list"
  numRequired :: int
  autoTopicArgName :: "string option"

text \<open>
  The first loop of \<open>__init__\<close>, over \<open>enumerate(args)\<close>: \<open>i\<close> is the running index,
  \<open>startsAt\<close> is \<open>argsDefaults_startsAt\<close>, which the code sets to
  \<open>len(args) - len(argsDefaults) - 1\<close> when there are defaults (and never reads
  otherwise).
\<close>

fun args_loop ::
  "int \<Rightarrow> pyvalue list option \<Rightarrow> int \<Rightarrow> int \<Rightarrow> string list \<Rightarrow> arg_default pydict
     \<Rightarrow> error + arg_default pydict" where
  "args_loop firstArgIdx argsDefaults startsAt i [] d = Inr d"
| "args_loop firstArgIdx argsDefaults startsAt i (variable # rest) d =
     (if i = 0 \<and> firstArgIdx > 0 then args_loop firstArgIdx argsDefaults startsAt (i + 1) rest d
      else
        (case argsDefaults of
           None \<Rightarrow> args_loop firstArgIdx argsDefaults startsAt (i + 1) rest (dict_set variable NO_DEFAULT d)
         | Some ds \<Rightarrow>
             if i < startsAt
             then args_loop firstArgIdx argsDefaults startsAt (i + 1) rest (dict_set variable NO_DEFAULT d)
             else bindE (py_index ds (i - startsAt - 1)) (\<lambda>v.
                    args_loop firstArgIdx argsDefaults startsAt (i + 1) rest
                      (dict_set variable (Default v) d))))"

definition argsDefaults_startsAt :: "string list \<Rightarrow> pyvalue list option \<Rightarrow> int" where
  "argsDefaults_startsAt as argsDefaults =
     (case argsDefaults of
        Some ds \<Rightarrow> int (length as) - int (length ds) - 1
      | None \<Rightarrow> 0)"

text \<open>
  The second loop, over the keyword-only names.
\<close>

fun kwargs_loop ::
  "(string \<rightharpoonup> pyvalue) option \<Rightarrow> string list \<Rightarrow> arg_default pydict \<Rightarrow> arg_default pydict" where
  "kwargs_loop kwargsDefaults [] d = d"
| "kwargs_loop kwargsDefaults (variable # rest) d =
     (case kwargsDefaults of
        None \<Rightarrow> kwargs_loop kwargsDefaults rest (dict_set variable NO_DEFAULT d)
      | Some kd \<Rightarrow>
          (case kd variable of
             None \<Rightarrow> kwargs_loop kwargsDefaults rest (dict_set variable NO_DEFAULT d)
           | Some v \<Rightarrow> kwargs_loop kwargsDefaults rest (dict_set variable (Default v) d)))"

text \<open>
  The loop over \<open>ignoreArgs\<close>. Each \<open>del\<close> stands under the test that the key is
  present, so it cannot raise and is the plain removal.
\<close>

fun ignore_loop :: "string list \<Rightarrow> CallArgsInfo \<Rightarrow> CallArgsInfo" where
  "ignore_loop [] self = self"
| "ignore_loop (var_name # rest) self =
     (if contains_key var_name (allArgs self)
      then ignore_loop rest (self\<lparr>allArgs := dict_remove var_name (allArgs self)\<rparr>)
      else if contains_key var_name (allKwargs self)
      then ignore_loop rest (self\<lparr>allKwargs := dict_remove var_name (allKwargs self)\<rparr>)
      else ignore_loop rest self)"

text \<open>
  \<open>varParamName in ignoreArgs\<close>, for a name that is a string or \<open>None\<close> and a list of
  strings.
\<close>

definition name_in :: "string option \<Rightarrow> string list \<Rightarrow> bool" where
  "name_in n xs = (case n of None \<Rightarrow> False | Some s \<Rightarrow> s \<in> set xs)"

text \<open>
  The block under \<open>if ignoreArgs\<close>; \<open>None\<close> and the empty list are both false
  there.
\<close>

definition apply_ignoreArgs :: "FullArgSpec \<Rightarrow> string list option \<Rightarrow> CallArgsInfo \<Rightarrow> CallArgsInfo" where
  "apply_ignoreArgs spec ignoreArgs self =
     (case ignoreArgs of
        None \<Rightarrow> self
      | Some xs \<Rightarrow>
          if xs = [] then self
          else
            (let self1 = ignore_loop xs self;
                 self2 = (if name_in (varkw spec) xs then self1\<lparr>acceptsAllKwargs := False\<rparr> else self1)
             in (if name_in (varargs spec) xs then self2\<lparr>acceptsAllUnnamedArgs := False\<rparr> else self2)))"

text \<open>
  \<open>_combinedDict\<close>: \<open>{**self.allArgs, **self.allKwargs}\<close>.
\<close>

definition combinedDict :: "CallArgsInfo \<Rightarrow> arg_default pydict" where
  "combinedDict self = fold (\<lambda>p d. dict_set (fst p) (snd p) d) (allKwargs self) (allArgs self)"

text \<open>
  \<open>__setupAutoTopic\<close>: the scan of the combined dict stops at the first value equal
  to the marker, records its key and deletes that key from \<open>allArgs\<close>.
\<close>

fun setupAutoTopic_loop :: "arg_default pydict \<Rightarrow> CallArgsInfo \<Rightarrow> error + CallArgsInfo" where
  "setupAutoTopic_loop [] self = Inr self"
| "setupAutoTopic_loop (p # rest) self =
     (if snd p = Default AUTO_TOPIC
      then bindE (dict_del (fst p) (allArgs self)) (\<lambda>d.
             Inr (self\<lparr>autoTopicArgName := Some (fst p), allArgs := d\<rparr>))
      else setupAutoTopic_loop rest self)"

definition setupAutoTopic :: "CallArgsInfo \<Rightarrow> error + CallArgsInfo" where
  "setupAutoTopic self = setupAutoTopic_loop (combinedDict self) self"

text \<open>
  \<open>self.numRequired\<close>: the number of \<open>NO_DEFAULT\<close> values in both dicts.
\<close>

definition count_required :: "CallArgsInfo \<Rightarrow> int" where
  "count_required self =
     int (length (filter isinstance_NO_DEFAULT (values_of (allArgs self) @ values_of (allKwargs self))))"

text \<open>
  \<open>CallArgsInfo.__init__\<close>, on the branch of \<open>_versionCheck\<close> for Python 3.5 and later
  (the one that reads \<open>getfullargspec\<close>). The object \<open>self\<close> is passed along as a
  record; \<open>numRequired\<close> and \<open>autoTopicArgName\<close> hold \<open>0\<close> and \<open>None\<close> until the
  constructor assigns them, and are not read before. The statement
  \<open>assert self.numRequired >= 0\<close> is about a length and cannot fail, so it is no branch
  here.
\<close>

definition CallArgsInfo_init ::
  "funcobj \<Rightarrow> int \<Rightarrow> string list option \<Rightarrow> error + CallArgsInfo" where
  "CallArgsInfo_init func firstArgIdx ignoreArgs =
     (let spec = getfullargspec func;
          argsDefaults = defaults spec;
          startsAt = argsDefaults_startsAt (spec_args spec) argsDefaults
      in bindE (args_loop firstArgIdx argsDefaults startsAt 0 (spec_args spec) []) (\<lambda>a.
           let k = kwargs_loop (kwonlydefaults spec) (kwonlyargs spec) [];
               self0 = \<lparr>allArgs = a, allKwargs = k,
                         acceptsAllKwargs = (varkw spec \<noteq> None),
                         acceptsAllUnnamedArgs = (varargs spec \<noteq> None),
                         allParams = keys a @ keys k,
                         numRequired = 0,
                         autoTopicArgName = None\<rparr>;
               self1 = apply_ignoreArgs spec ignoreArgs self0;
               self2 = self1\<lparr>numRequired := count_required self1\<rparr>
           in setupAutoTopic (self2\<lparr>autoTopicArgName := None\<rparr>)))"

definition getAllArgs :: "CallArgsInfo \<Rightarrow> string list" where
  "getAllArgs self = allParams self"

definition getOptionalArgs :: "CallArgsInfo \<Rightarrow> string list" where
  "getOptionalArgs self =
     map fst (filter (\<lambda>p. \<not> isinstance_NO_DEFAULT (snd p)) (allArgs self @ allKwargs self))"

definition getRequiredArgs :: "CallArgsInfo \<Rightarrow> string list" where
  "getRequiredArgs self =
     map fst (filter (\<lambda>p. isinstance_NO_DEFAULT (snd p)) (allArgs self @ allKwargs self))"

text \<open>
  \<open>getArgs\<close>: a \<open>ValueError\<close> of \<open>getRawFunction\<close> is turned into a
  \<open>ListenerMismatchError\<close> built from \<open>str(exc)\<close> and the callable.
\<close>

definition getArgs :: "pyobj \<Rightarrow> string list option \<Rightarrow> error + CallArgsInfo" where
  "getArgs callable ignoreArgs =
     (case getRawFunction callable of
        Inl (ValueError m) \<Rightarrow>
          bindE (ListenerMismatchError_init m callable []) (\<lambda>e. Inl (ListenerMismatch e))
      | Inl e \<Rightarrow> Inl e
      | Inr (func, firstArgIdx) \<Rightarrow> CallArgsInfo_init func firstArgIdx ignoreArgs)"

section \<open>Notions used to state the properties\<close>

text \<open>
  A signature that Python accepts never repeats a parameter name.
\<close>

definition valid_names :: "FullArgSpec \<Rightarrow> bool" where
  "valid_names spec = distinct (spec_args spec @ kwonlyargs spec)"

text \<open>
  The ordinary parameters left once the receiver is skipped, and all parameters that
  are not the receiver, in declaration order.
\<close>

definition ordinary_params :: "int \<Rightarrow> FullArgSpec \<Rightarrow> string list" where
  "ordinary_params firstArgIdx spec =
     (if firstArgIdx > 0 then drop 1 (spec_args spec) else spec_args spec)"

definition non_receiver_params :: "int \<Rightarrow> FullArgSpec \<Rightarrow> string list" where
  "non_receiver_params firstArgIdx spec = ordinary_params firstArgIdx spec @ kwonlyargs spec"

text \<open>
  The parameters that a signature declares with a default, each with its default: the
  last \<open>len(defaults)\<close> ordinary parameters, in order, and the keyword-only parameters
  that are keys of \<open>kwonlydefaults\<close>. The parameters whose declared default is the marker
  are \<open>marker_params\<close>.
\<close>

definition declared_defaults :: "FullArgSpec \<Rightarrow> (string \<times> pyvalue) list" where
  "declared_defaults spec =
     (case defaults spec of
        None \<Rightarrow> []
      | Some ds \<Rightarrow> zip (drop (length (spec_args spec) - length ds) (spec_args spec)) ds)"

definition declared_kwdefaults :: "FullArgSpec \<Rightarrow> (string \<times> pyvalue) list" where
  "declared_kwdefaults spec =
     (case kwonlydefaults spec of
        None \<Rightarrow> []
      | Some kd \<Rightarrow>
          concat (map (\<lambda>x. case kd x of None \<Rightarrow> [] | Some v \<Rightarrow> [(x, v)]) (kwonlyargs spec)))"

definition marker_params :: "FullArgSpec \<Rightarrow> string list" where
  "marker_params spec =
     map fst (filter (\<lambda>p. snd p = AUTO_TOPIC) (declared_defaults spec @ declared_kwdefaults spec))"

text \<open>
  What the first loop of the constructor stores for the ordinary parameter at index
  \<open>q\<close>, when there are \<open>N\<close> ordinary parameters and the defaults \<open>ds\<close>: the test is
  \<open>q < N - len(ds) - 1\<close>, and at \<open>q = N - len(ds) - 1\<close> the index
  \<open>q - argsDefaults_startsAt - 1\<close> is \<open>-1\<close>, the last default.
\<close>

definition stored_default :: "nat \<Rightarrow> pyvalue list \<Rightarrow> int \<Rightarrow> arg_default" where
  "stored_default N ds q =
     (if q < int N - int (length ds) - 1 then NO_DEFAULT
      else if q = int N - int (length ds) - 1 then Default (last ds)
      else Default (ds ! nat (q - (int N - int (length ds)))))"

text \<open>
  The callables of the examples: the function \<open>f(a, b=1, *, c, d=2)\<close>; an object whose
  class defines \<open>__call__(self, x, y=AUTO_TOPIC)\<close>; the function \<open>g(*, t=AUTO_TOPIC)\<close>;
  the bound method \<open>Handler.on_msg(self, a, b)\<close>; the function
  \<open>on_msg(topic=AUTO_TOPIC, value=None)\<close>; and an object that cannot be called.
\<close>

definition example_f_func :: funcobj where
  "example_f_func = Function ''f'' (Some ''listeners'')
     \<lparr>spec_args = [''a'', ''b''], varargs = None, varkw = None, defaults = Some [PyInt 1],
      kwonlyargs = [''c'', ''d''], kwonlydefaults = Some [''d'' \<mapsto> PyInt 2]\<rparr>"

definition example_f :: pyobj where
  "example_f = Func example_f_func"

definition example_call_func :: funcobj where
  "example_call_func = Method ''Listener'' (Some ''listeners'') ''__call__''
     \<lparr>spec_args = [''self'', ''x'', ''y''], varargs = None, varkw = None,
      defaults = Some [AUTO_TOPIC], kwonlyargs = [], kwonlydefaults = None\<rparr>"

definition example_functor :: pyobj where
  "example_functor = Instance ''Listener'' (Some ''listeners'') (Some example_call_func)"

definition example_kwonly_topic :: pyobj where
  "example_kwonly_topic = Func (Function ''g'' (Some ''listeners'')
     \<lparr>spec_args = [], varargs = None, varkw = None, defaults = None,
      kwonlyargs = [''t''], kwonlydefaults = Some [''t'' \<mapsto> AUTO_TOPIC]\<rparr>)"

definition example_method_func :: funcobj where
  "example_method_func = Method ''Handler'' (Some ''listeners'') ''on_msg''
     \<lparr>spec_args = [''self'', ''a'', ''b''], varargs = None, varkw = None, defaults = None,
      kwonlyargs = [], kwonlydefaults = None\<rparr>"

definition example_method :: pyobj where
  "example_method = Func example_method_func"

definition example_on_msg_func :: funcobj where
  "example_on_msg_func = Function ''on_msg'' (Some ''listeners'')
     \<lparr>spec_args = [''topic'', ''value''], varargs = None, varkw = None,
      defaults = Some [AUTO_TOPIC, PyNone], kwonlyargs = [], kwonlydefaults = None\<rparr>"

definition example_on_msg :: pyobj where
  "example_on_msg = Func example_on_msg_func"

definition example_not_callable :: pyobj where
  "example_not_callable = Instance ''int'' None None"

text \<open>
  The listener of the constructor's docstring, as the call operator of an object:
  \<open>__call__(self, arg1, arg2=AUTO_TOPIC, arg3=None)\<close>.
\<close>

definition example_docstring_func :: funcobj where
  "example_docstring_func = Method ''Listener'' (Some ''listeners'') ''__call__''
     \<lparr>spec_args = [''self'', ''arg1'', ''arg2'', ''arg3''], varargs = None, varkw = None,
      defaults = Some [AUTO_TOPIC, PyNone], kwonlyargs = [], kwonlydefaults = None\<rparr>"

definition example_docstring_listener :: pyobj where
  "example_docstring_listener = Instance ''Listener'' (Some ''listeners'') (Some example_docstring_func)"

text \<open>
  The descriptors that the constructor returns for \<open>Handler.on_msg\<close> with the
  exclusion list \<open>['b']\<close>, and for \<open>Handler.on_msg\<close> with no exclusion.
\<close>

definition example_method_info :: CallArgsInfo where
  "example_method_info =
     \<lparr>allArgs = [(''a'', NO_DEFAULT)], allKwargs = [],
      acceptsAllKwargs = False, acceptsAllUnnamedArgs = False,
      allParams = [''a'', ''b''], numRequired = 1,
      autoTopicArgName = None\<rparr>"


section \<open>Facts about dictionaries and the loops of the constructor\<close>

lemma dict_set_new: "k \<notin> set (keys d) \<Longrightarrow> dict_set k v d = d @ [(k, v)]"
  by (induction d) (auto simp: keys_def)

lemma keys_append: "keys (a @ b) = keys a @ keys b"
  by (simp add: keys_def)

lemma set_keys_dict_set: "set (keys (dict_set k v d)) = insert k (set (keys d))"
  by (induction d) (auto simp: keys_def)

lemma keys_dict_remove: "keys (dict_remove k d) = filter (\<lambda>x. x \<noteq> k) (keys d)"
  by (induction d) (auto simp: keys_def dict_remove_def)

lemma args_loop_keys:
  "0 \<le> i \<Longrightarrow> distinct (keys d @ xs) \<Longrightarrow> args_loop f ad s i xs d = Inr d'
     \<Longrightarrow> keys d' = keys d @ (if i = 0 \<and> 0 < f then drop 1 xs else xs)"
proof (induction xs arbitrary: i d)
  case Nil
  then show ?case by simp
next
  case (Cons x xs)
  show ?case
  proof (cases "i = 0 \<and> 0 < f")
    case True
    with Cons.prems have "args_loop f ad s (i + 1) xs d = Inr d'" by simp
    moreover have "distinct (keys d @ xs)" using Cons.prems by simp
    ultimately have "keys d' = keys d @ (if i + 1 = 0 \<and> 0 < f then drop 1 xs else xs)"
      using Cons.IH[of "i + 1" d] Cons.prems(1) by simp
    with True show ?thesis by simp
  next
    case False
    from Cons.prems(2) have xd: "x \<notin> set (keys d)" by simp
    from False Cons.prems(3) obtain v where
      rec: "args_loop f ad s (i + 1) xs (dict_set x v d) = Inr d'"
      by (auto simp: bindE_def split: option.splits if_splits sum.splits)
    have "dict_set x v d = d @ [(x, v)]" using xd by (rule dict_set_new)
    then have k: "keys (dict_set x v d) = keys d @ [x]" by (simp add: keys_def)
    then have "distinct (keys (dict_set x v d) @ xs)" using Cons.prems(2) by simp
    then have "keys d' = keys (dict_set x v d) @ (if i + 1 = 0 \<and> 0 < f then drop 1 xs else xs)"
      using Cons.IH[of "i + 1" "dict_set x v d"] rec Cons.prems(1) by simp
    with k False Cons.prems(1) show ?thesis by simp
  qed
qed

lemma args_loop_keys_subset:
  "0 \<le> i \<Longrightarrow> args_loop f ad s i xs d = Inr d'
     \<Longrightarrow> set (keys d') \<subseteq> set (keys d) \<union> set (if i = 0 \<and> 0 < f then drop 1 xs else xs)"
proof (induction xs arbitrary: i d)
  case Nil
  then show ?case by simp
next
  case (Cons x xs)
  show ?case
  proof (cases "i = 0 \<and> 0 < f")
    case True
    with Cons.prems have "args_loop f ad s (i + 1) xs d = Inr d'" by simp
    then have "set (keys d') \<subseteq> set (keys d) \<union> set (if i + 1 = 0 \<and> 0 < f then drop 1 xs else xs)"
      using Cons.IH[of "i + 1" d] Cons.prems(1) by simp
    with True show ?thesis by simp
  next
    case False
    from False Cons.prems(2) obtain v where
      rec: "args_loop f ad s (i + 1) xs (dict_set x v d) = Inr d'"
      by (auto simp: bindE_def split: option.splits if_splits sum.splits)
    then have "set (keys d') \<subseteq> set (keys (dict_set x v d)) \<union> set (if i + 1 = 0 \<and> 0 < f then drop 1 xs else xs)"
      using Cons.IH[of "i + 1" "dict_set x v d"] Cons.prems(1) by simp
    with False Cons.prems(1) show ?thesis by (auto simp: set_keys_dict_set)
  qed
qed

lemma kwargs_loop_keys:
  "distinct (keys d @ xs) \<Longrightarrow> keys (kwargs_loop kd xs d) = keys d @ xs"
proof (induction xs arbitrary: d)
  case Nil
  then show ?case by simp
next
  case (Cons x xs)
  from Cons.prems have xd: "x \<notin> set (keys d)" by simp
  have step: "keys (kwargs_loop kd xs (dict_set x v d)) = keys d @ x # xs" for v
  proof -
    have "dict_set x v d = d @ [(x, v)]" using xd by (rule dict_set_new)
    then have k: "keys (dict_set x v d) = keys d @ [x]" by (simp add: keys_def)
    then have "distinct (keys (dict_set x v d) @ xs)" using Cons.prems by simp
    then show ?thesis using Cons.IH[of "dict_set x v d"] k by simp
  qed
  show ?case
  proof (cases kd)
    case None
    then show ?thesis using step[of NO_DEFAULT] by simp
  next
    case (Some m)
    then show ?thesis using step[of NO_DEFAULT] step[of "Default v" for v]
      by (cases "m x") simp_all
  qed
qed

lemma kwargs_loop_keys_set:
  "set (keys (kwargs_loop kd xs d)) = set (keys d) \<union> set xs"
  by (induction xs arbitrary: d) (auto simp: set_keys_dict_set split: option.splits)

lemma ignore_loop_frame:
  "allParams (ignore_loop xs s) = allParams s
   \<and> acceptsAllKwargs (ignore_loop xs s) = acceptsAllKwargs s
   \<and> acceptsAllUnnamedArgs (ignore_loop xs s) = acceptsAllUnnamedArgs s
   \<and> numRequired (ignore_loop xs s) = numRequired s
   \<and> autoTopicArgName (ignore_loop xs s) = autoTopicArgName s"
  by (induction xs arbitrary: s) simp_all

lemma ignore_loop_keys_subset:
  "set (keys (allArgs (ignore_loop xs s))) \<subseteq> set (keys (allArgs s))
   \<and> set (keys (allKwargs (ignore_loop xs s))) \<subseteq> set (keys (allKwargs s))"
proof (induction xs arbitrary: s)
  case Nil
  then show ?case by simp
next
  case (Cons x xs)
  show ?case
    using Cons.IH[of "s\<lparr>allArgs := dict_remove x (allArgs s)\<rparr>"]
          Cons.IH[of "s\<lparr>allKwargs := dict_remove x (allKwargs s)\<rparr>"]
          Cons.IH[of s]
    by (auto simp: keys_dict_remove)
qed

lemma ignore_loop_distinct:
  "distinct (keys (allArgs s) @ keys (allKwargs s))
     \<Longrightarrow> distinct (keys (allArgs (ignore_loop xs s)) @ keys (allKwargs (ignore_loop xs s)))"
proof (induction xs arbitrary: s)
  case Nil
  then show ?case by simp
next
  case (Cons x xs)
  have a: "distinct (keys (dict_remove x (allArgs s)) @ keys (allKwargs s))"
    using Cons.prems by (auto simp: keys_dict_remove)
  have k: "distinct (keys (allArgs s) @ keys (dict_remove x (allKwargs s)))"
    using Cons.prems by (auto simp: keys_dict_remove)
  show ?case
    using Cons.IH[of "s\<lparr>allArgs := dict_remove x (allArgs s)\<rparr>"]
          Cons.IH[of "s\<lparr>allKwargs := dict_remove x (allKwargs s)\<rparr>"]
          Cons.IH[of s] a k Cons.prems
    by simp
qed

lemma ignore_loop_append: "ignore_loop (xs @ ys) s = ignore_loop ys (ignore_loop xs s)"
  by (induction xs arbitrary: s) simp_all

lemma ignore_loop_absent:
  assumes "e \<notin> set (keys (allArgs s))" and "e \<notin> set (keys (allKwargs s))"
  shows "ignore_loop (xs @ e # ys) s = ignore_loop (xs @ ys) s"
proof -
  let ?t = "ignore_loop xs s"
  have "e \<notin> set (keys (allArgs ?t))" and "e \<notin> set (keys (allKwargs ?t))"
    using assms ignore_loop_keys_subset[of xs s] by auto
  then have "ignore_loop (e # ys) ?t = ignore_loop ys ?t"
    by (simp add: contains_key_def)
  then show ?thesis by (simp add: ignore_loop_append)
qed

lemma combined_disjoint:
  "distinct (keys a @ keys k) \<Longrightarrow> fold (\<lambda>p d. dict_set (fst p) (snd p) d) k a = a @ k"
proof (induction k arbitrary: a)
  case Nil
  then show ?case by simp
next
  case (Cons p k)
  from Cons.prems have "fst p \<notin> set (keys a)" by (auto simp: keys_def)
  then have s: "dict_set (fst p) (snd p) a = a @ [p]" by (simp add: dict_set_new)
  have "distinct (keys (a @ [p]) @ keys k)" using Cons.prems by (auto simp: keys_def)
  then show ?case using Cons.IH[of "a @ [p]"] s by simp
qed

lemma setupAutoTopic_loop_result:
  "setupAutoTopic_loop c s = Inr s' \<Longrightarrow>
     (s' = s \<and> (\<forall>p \<in> set c. snd p \<noteq> Default AUTO_TOPIC))
     \<or> (\<exists>p \<in> set c. snd p = Default AUTO_TOPIC \<and> fst p \<in> set (keys (allArgs s))
            \<and> s' = s\<lparr>autoTopicArgName := Some (fst p), allArgs := dict_remove (fst p) (allArgs s)\<rparr>)"
proof (induction c)
  case Nil
  then show ?case by simp
next
  case (Cons p c)
  show ?case
  proof (cases "snd p = Default AUTO_TOPIC")
    case True
    with Cons.prems show ?thesis
      by (auto simp: bindE_def dict_del_def contains_key_def split: if_splits)
  next
    case False
    with Cons.prems have "setupAutoTopic_loop c s = Inr s'" by simp
    from Cons.IH[OF this] False show ?thesis by auto
  qed
qed


lemma apply_ignoreArgs_frame:
  "allParams (apply_ignoreArgs spec ign s) = allParams s
   \<and> numRequired (apply_ignoreArgs spec ign s) = numRequired s
   \<and> autoTopicArgName (apply_ignoreArgs spec ign s) = autoTopicArgName s"
  by (simp add: apply_ignoreArgs_def Let_def ignore_loop_frame split: option.splits)

lemma apply_ignoreArgs_dicts:
  "\<exists>xs. allArgs (apply_ignoreArgs spec ign s) = allArgs (ignore_loop xs s)
        \<and> allKwargs (apply_ignoreArgs spec ign s) = allKwargs (ignore_loop xs s)"
proof (cases ign)
  case None
  then have "allArgs (apply_ignoreArgs spec ign s) = allArgs (ignore_loop [] s)
        \<and> allKwargs (apply_ignoreArgs spec ign s) = allKwargs (ignore_loop [] s)"
    by (simp add: apply_ignoreArgs_def)
  then show ?thesis by blast
next
  case (Some xs)
  show ?thesis
  proof (cases "xs = []")
    case True
    with Some have "allArgs (apply_ignoreArgs spec ign s) = allArgs (ignore_loop [] s)
        \<and> allKwargs (apply_ignoreArgs spec ign s) = allKwargs (ignore_loop [] s)"
      by (simp add: apply_ignoreArgs_def)
    then show ?thesis by blast
  next
    case False
    with Some have "allArgs (apply_ignoreArgs spec ign s) = allArgs (ignore_loop xs s)
        \<and> allKwargs (apply_ignoreArgs spec ign s) = allKwargs (ignore_loop xs s)"
      by (simp add: apply_ignoreArgs_def Let_def)
    then show ?thesis by blast
  qed
qed

lemma count_required_cong:
  "allArgs t = allArgs s \<Longrightarrow> allKwargs t = allKwargs s \<Longrightarrow> count_required t = count_required s"
  by (simp add: count_required_def)

lemma init_unfold:
  "CallArgsInfo_init func off ign =
     bindE (args_loop off (defaults (getfullargspec func))
              (argsDefaults_startsAt (spec_args (getfullargspec func)) (defaults (getfullargspec func)))
              0 (spec_args (getfullargspec func)) [])
       (\<lambda>a. setupAutoTopic
          ((apply_ignoreArgs (getfullargspec func) ign
              \<lparr>allArgs = a,
               allKwargs = kwargs_loop (kwonlydefaults (getfullargspec func)) (kwonlyargs (getfullargspec func)) [],
               acceptsAllKwargs = (varkw (getfullargspec func) \<noteq> None),
               acceptsAllUnnamedArgs = (varargs (getfullargspec func) \<noteq> None),
               allParams = keys a @ keys (kwargs_loop (kwonlydefaults (getfullargspec func)) (kwonlyargs (getfullargspec func)) []),
               numRequired = 0, autoTopicArgName = None\<rparr>)
           \<lparr>numRequired := count_required (apply_ignoreArgs (getfullargspec func) ign
              \<lparr>allArgs = a,
               allKwargs = kwargs_loop (kwonlydefaults (getfullargspec func)) (kwonlyargs (getfullargspec func)) [],
               acceptsAllKwargs = (varkw (getfullargspec func) \<noteq> None),
               acceptsAllUnnamedArgs = (varargs (getfullargspec func) \<noteq> None),
               allParams = keys a @ keys (kwargs_loop (kwonlydefaults (getfullargspec func)) (kwonlyargs (getfullargspec func)) []),
               numRequired = 0, autoTopicArgName = None\<rparr>),
             autoTopicArgName := None\<rparr>))"
  by (simp add: CallArgsInfo_init_def Let_def)

lemma init_structure:
  assumes ok: "CallArgsInfo_init func off ign = Inr info"
      and vn: "valid_names (getfullargspec func)"
  shows "\<exists>s. setupAutoTopic s = Inr info
           \<and> allParams s = non_receiver_params off (getfullargspec func)
           \<and> set (keys (allArgs s)) \<subseteq> set (ordinary_params off (getfullargspec func))
           \<and> set (keys (allKwargs s)) \<subseteq> set (kwonlyargs (getfullargspec func))
           \<and> distinct (keys (allArgs s) @ keys (allKwargs s))
           \<and> numRequired s = count_required s
           \<and> autoTopicArgName s = None"
proof -
  define spec where "spec = getfullargspec func"
  define k where "k = kwargs_loop (kwonlydefaults spec) (kwonlyargs spec) []"
  from ok obtain a where
    a: "args_loop off (defaults spec) (argsDefaults_startsAt (spec_args spec) (defaults spec)) 0 (spec_args spec) [] = Inr a"
    by (auto simp: init_unfold spec_def bindE_def split: sum.splits)
  define s0 where "s0 = \<lparr>allArgs = a, allKwargs = k,
      acceptsAllKwargs = (varkw spec \<noteq> None), acceptsAllUnnamedArgs = (varargs spec \<noteq> None),
      allParams = keys a @ keys k, numRequired = 0, autoTopicArgName = None\<rparr>"
  define s1 where "s1 = apply_ignoreArgs spec ign s0"
  define s where "s = s1\<lparr>numRequired := count_required s1, autoTopicArgName := None\<rparr>"
  have fin: "setupAutoTopic s = Inr info"
    using ok a by (simp add: init_unfold bindE_def s_def s1_def s0_def k_def spec_def)
  from vn have da: "distinct (spec_args spec)" and dk: "distinct (kwonlyargs spec)"
    and dj: "set (spec_args spec) \<inter> set (kwonlyargs spec) = {}"
    by (auto simp: valid_names_def spec_def)
  have ka: "keys a = ordinary_params off spec"
    using args_loop_keys[OF _ _ a] da by (simp add: ordinary_params_def keys_def)
  have kk: "keys k = kwonlyargs spec"
    using kwargs_loop_keys[of "[]" "kwonlyargs spec" "kwonlydefaults spec"] dk
    by (simp add: k_def keys_def)
  have sub: "set (ordinary_params off spec) \<subseteq> set (spec_args spec)"
    by (auto simp: ordinary_params_def dest: in_set_dropD)
  have dord: "distinct (ordinary_params off spec)"
    using da by (simp add: ordinary_params_def)
  have d0: "distinct (keys (allArgs s0) @ keys (allKwargs s0))"
    using ka kk dord dk dj sub by (auto simp: s0_def)
  obtain xs where xs: "allArgs s1 = allArgs (ignore_loop xs s0)" "allKwargs s1 = allKwargs (ignore_loop xs s0)"
    using apply_ignoreArgs_dicts[of spec ign s0] by (auto simp: s1_def)
  have p: "allParams s = non_receiver_params off spec"
    using apply_ignoreArgs_frame[of spec ign s0] ka kk
    by (simp add: s_def s1_def s0_def non_receiver_params_def)
  have sa: "set (keys (allArgs s)) \<subseteq> set (ordinary_params off spec)"
    using ignore_loop_keys_subset[of xs s0] xs ka by (simp add: s_def s0_def)
  have sk: "set (keys (allKwargs s)) \<subseteq> set (kwonlyargs spec)"
    using ignore_loop_keys_subset[of xs s0] xs kk by (simp add: s_def s0_def)
  have ds: "distinct (keys (allArgs s) @ keys (allKwargs s))"
    using ignore_loop_distinct[OF d0, of xs] xs by (simp add: s_def)
  have nr: "numRequired s = count_required s"
    by (simp add: s_def count_required_def)
  have at: "autoTopicArgName s = None" by (simp add: s_def)
  from fin p sa sk ds nr at show ?thesis unfolding spec_def by blast
qed

lemma setupAutoTopic_result:
  assumes "setupAutoTopic s = Inr info"
      and "distinct (keys (allArgs s) @ keys (allKwargs s))"
  shows "info = s
     \<or> (\<exists>n. (n, Default AUTO_TOPIC) \<in> set (allArgs s)
            \<and> info = s\<lparr>autoTopicArgName := Some n, allArgs := dict_remove n (allArgs s)\<rparr>)"
proof -
  have c: "combinedDict s = allArgs s @ allKwargs s"
    using assms(2) by (simp add: combinedDict_def combined_disjoint)
  from assms(1) have "setupAutoTopic_loop (allArgs s @ allKwargs s) s = Inr info"
    by (simp add: setupAutoTopic_def c)
  from setupAutoTopic_loop_result[OF this] show ?thesis
  proof
    assume "info = s \<and> (\<forall>p\<in>set (allArgs s @ allKwargs s). snd p \<noteq> Default AUTO_TOPIC)"
    then show ?thesis by simp
  next
    assume "\<exists>p\<in>set (allArgs s @ allKwargs s). snd p = Default AUTO_TOPIC \<and> fst p \<in> set (keys (allArgs s))
        \<and> info = s\<lparr>autoTopicArgName := Some (fst p), allArgs := dict_remove (fst p) (allArgs s)\<rparr>"
    then obtain p where p: "p \<in> set (allArgs s @ allKwargs s)" "snd p = Default AUTO_TOPIC"
      "fst p \<in> set (keys (allArgs s))"
      "info = s\<lparr>autoTopicArgName := Some (fst p), allArgs := dict_remove (fst p) (allArgs s)\<rparr>"
      by blast
    have "p \<notin> set (allKwargs s)"
    proof
      assume "p \<in> set (allKwargs s)"
      then have "fst p \<in> set (keys (allKwargs s))" by (auto simp: keys_def)
      with p(3) assms(2) show False by auto
    qed
    with p(1) have "p \<in> set (allArgs s)" by simp
    then have "(fst p, Default AUTO_TOPIC) \<in> set (allArgs s)" using p(2) by (metis prod.collapse)
    with p(4) show ?thesis by blast
  qed
qed

lemma filter_dict_remove:
  assumes "distinct (keys A)" and "(n, v) \<in> set A" and "\<not> P (n, v)"
  shows "filter P (dict_remove n A) = filter P A"
proof -
  have "\<And>x. x \<in> set A \<Longrightarrow> (fst x \<noteq> n \<and> P x) = P x"
  proof -
    fix x assume x: "x \<in> set A"
    show "(fst x \<noteq> n \<and> P x) = P x"
    proof (cases "fst x = n")
      case True
      then have "(n, snd x) \<in> set A" using x by (metis prod.collapse)
      with assms(1,2) have "snd x = v" by (auto simp: keys_def dest: eq_key_imp_eq_value)
      with True assms(3) have "\<not> P x" by (metis prod.collapse)
      with True show ?thesis by simp
    next
      case False
      then show ?thesis by simp
    qed
  qed
  then show ?thesis by (simp add: dict_remove_def cong: filter_cong)
qed

lemma required_optional_subset:
  "set (getRequiredArgs t) \<subseteq> set (keys (allArgs t)) \<union> set (keys (allKwargs t))
   \<and> set (getOptionalArgs t) \<subseteq> set (keys (allArgs t)) \<union> set (keys (allKwargs t))"
  by (auto simp: getRequiredArgs_def getOptionalArgs_def keys_def)

lemma setupAutoTopic_keys:
  assumes "setupAutoTopic s = Inr info"
      and "distinct (keys (allArgs s) @ keys (allKwargs s))"
  shows "set (keys (allArgs info)) \<subseteq> set (keys (allArgs s))
       \<and> allKwargs info = allKwargs s \<and> allParams info = allParams s"
  using setupAutoTopic_result[OF assms] by (auto simp: keys_dict_remove)

lemma getArgs_supported:
  "getRawFunction callable = Inr (func, off)
     \<Longrightarrow> getArgs callable ign = CallArgsInfo_init func off ign"
  by (simp add: getArgs_def)

lemma name_in_absent: "n \<noteq> Some e \<Longrightarrow> name_in n (xs @ e # ys) = name_in n (xs @ ys)"
  by (cases n) (auto simp: name_in_def)

lemma apply_ignoreArgs_absent:
  assumes "e \<notin> set (keys (allArgs s))" and "e \<notin> set (keys (allKwargs s))"
      and "varargs spec \<noteq> Some e" and "varkw spec \<noteq> Some e"
  shows "apply_ignoreArgs spec (Some (xs @ e # ys)) s = apply_ignoreArgs spec (Some (xs @ ys)) s"
proof (cases "xs @ ys = []")
  case True
  then have e: "xs = []" "ys = []" by simp_all
  have "ignore_loop [e] s = s" using assms(1,2) by (simp add: contains_key_def)
  moreover have "\<not> name_in (varkw spec) [e]" "\<not> name_in (varargs spec) [e]"
    using assms(3,4) by (auto simp: name_in_def split: option.splits)
  ultimately show ?thesis using e by (simp add: apply_ignoreArgs_def)
next
  case False
  then show ?thesis
    using ignore_loop_absent[OF assms(1,2), of xs ys]
          name_in_absent[OF assms(3), of xs ys] name_in_absent[OF assms(4), of xs ys]
    by (auto simp: apply_ignoreArgs_def)
qed

lemma pyformat_type_not_supported:
  "pyformat ''type \"%s\" not supported'' [a] = Inr (''type \"'' @ a @ ''\" not supported'')"
  by (simp add: bindE_def)

lemma pyformat_listener:
  "pyformat ''Listener \"%s\" (from module \"%s\") inadequate: %s'' [a, b, c]
     = Inr (''Listener \"'' @ a @ ''\" (from module \"'' @ b @ ''\") inadequate: '' @ c)"
  by (simp add: bindE_def)

lemma pyformat_dotted: "pyformat ''%s.%s'' [a, b] = Inr (a @ ''.'' @ b)"
  by (simp add: bindE_def)

lemma getID_total: "\<exists>idS. getID listener = Inr (idS, getModule (module_attr listener))"
proof (cases listener)
  case (Func f)
  then show ?thesis by (cases f) (simp_all add: pyformat_dotted bindE_def)
next
  case (Instance c m call)
  then show ?thesis by simp
qed

lemma ListenerMismatchError_init_value:
  "getID listener = Inr (idS, modl) \<Longrightarrow>
     ListenerMismatchError_init explanation listener extra
       = Inr \<lparr>msg = ''Listener \"'' @ idS @ ''\" (from module \"'' @ modl @ ''\") inadequate: '' @ explanation,
              module = modl, idStr = idS, args = extra\<rparr>"
  unfolding ListenerMismatchError_init_def
  by (simp add: bindE_def pyformat_listener del: pyformat.simps)

lemma upt_Suc_shift:
  "map f (filter P [0..<Suc n])
     = (if P 0 then [f 0] else []) @ map (\<lambda>k. f (Suc k)) (filter (\<lambda>k. P (Suc k)) [0..<n])"
proof -
  have "[0..<Suc n] = 0 # map Suc [0..<n]"
    by (simp add: upt_conv_Cons map_Suc_upt del: upt_Suc)
  then show ?thesis by (simp add: filter_map o_def del: upt_Suc)
qed

lemma py_index_nonneg: "0 \<le> j \<Longrightarrow> j < int (length xs) \<Longrightarrow> py_index xs j = Inr (xs ! nat j)"
  by (simp add: py_index_def Let_def)

lemma py_index_minus_one: "xs \<noteq> [] \<Longrightarrow> py_index xs (- 1) = Inr (last xs)"
  by (simp add: py_index_def Let_def last_conv_nth nat_diff_distrib')

lemma args_loop_step:
  assumes "\<not> (i = 0 \<and> 0 < off)" and "0 \<le> i" and "i < int N" and "length ds \<le> N" and "0 < length ds"
  shows "args_loop off (Some ds) (int N - int (length ds) - 1) i (x # rest) d
     = args_loop off (Some ds) (int N - int (length ds) - 1) (i + 1) rest
         (dict_set x (stored_default N ds i) d)"
proof -
  let ?s = "int N - int (length ds) - 1"
  have e: "i - ?s - 1 = i - (int N - int (length ds))" by arith
  consider (before) "i < ?s" | (at) "i = ?s" | (after) "?s < i" by linarith
  then show ?thesis
  proof cases
    case before
    with assms(1) show ?thesis by (auto simp: stored_default_def)
  next
    case at
    then have "i - ?s - 1 = - 1" by simp
    then have "py_index ds (i - ?s - 1) = Inr (last ds)"
      using assms(5) by (simp add: py_index_minus_one)
    moreover have "stored_default N ds i = Default (last ds)"
      using at by (simp add: stored_default_def)
    ultimately show ?thesis using at assms(1) by (auto simp: bindE_def)
  next
    case after
    have "0 \<le> i - (int N - int (length ds))" and "i - (int N - int (length ds)) < int (length ds)"
      using after assms(3) by linarith+
    then have "py_index ds (i - ?s - 1) = Inr (ds ! nat (i - (int N - int (length ds))))"
      unfolding e by (rule py_index_nonneg)
    moreover have "stored_default N ds i = Default (ds ! nat (i - (int N - int (length ds))))"
      using after by (simp add: stored_default_def)
    moreover have "\<not> i < ?s" using after by simp
    ultimately show ?thesis using assms(1) by (auto simp: bindE_def)
  qed
qed

lemma args_loop_defaults:
  assumes "0 \<le> i" and "int (length xs) + i = int N" and "distinct (keys d @ xs)"
      and "length ds \<le> N" and "0 < length ds"
  shows "args_loop off (Some ds) (int N - int (length ds) - 1) i xs d
     = Inr (d @ map (\<lambda>k. (xs ! k, stored_default N ds (i + int k)))
                 (filter (\<lambda>k. \<not> (i + int k = 0 \<and> 0 < off)) [0..<length xs]))"
  using assms
proof (induction xs arbitrary: i d)
  case Nil
  then show ?case by simp
next
  case (Cons x rest)
  have len: "i < int N" using Cons.prems(2) by simp
  show ?case
  proof (cases "i = 0 \<and> 0 < off")
    case True
    have "distinct (keys d @ rest)" using Cons.prems(3) by simp
    moreover have "int (length rest) + (i + 1) = int N" using Cons.prems(2) by simp
    ultimately have ih: "args_loop off (Some ds) (int N - int (length ds) - 1) (i + 1) rest d
       = Inr (d @ map (\<lambda>k. (rest ! k, stored_default N ds (i + 1 + int k)))
                 (filter (\<lambda>k. \<not> (i + 1 + int k = 0 \<and> 0 < off)) [0..<length rest]))"
      using Cons.IH[of "i + 1" d] Cons.prems by simp
    have "args_loop off (Some ds) (int N - int (length ds) - 1) i (x # rest) d
        = args_loop off (Some ds) (int N - int (length ds) - 1) (i + 1) rest d"
      using True by simp
    with ih True show ?thesis
      by (simp add: upt_Suc_shift ac_simps del: upt_Suc args_loop.simps)
  next
    case False
    from Cons.prems(3) have xd: "x \<notin> set (keys d)" by simp
    let ?d = "dict_set x (stored_default N ds i) d"
    have dn: "?d = d @ [(x, stored_default N ds i)]" using xd by (rule dict_set_new)
    then have "distinct (keys ?d @ rest)" using Cons.prems(3) by (simp add: keys_def)
    moreover have "int (length rest) + (i + 1) = int N" using Cons.prems(2) by simp
    ultimately have ih: "args_loop off (Some ds) (int N - int (length ds) - 1) (i + 1) rest ?d
       = Inr (?d @ map (\<lambda>k. (rest ! k, stored_default N ds (i + 1 + int k)))
                 (filter (\<lambda>k. \<not> (i + 1 + int k = 0 \<and> 0 < off)) [0..<length rest]))"
      using Cons.IH[of "i + 1" ?d] Cons.prems by simp
    have "args_loop off (Some ds) (int N - int (length ds) - 1) i (x # rest) d
        = args_loop off (Some ds) (int N - int (length ds) - 1) (i + 1) rest ?d"
      using args_loop_step[OF False Cons.prems(1) len Cons.prems(4,5)] .
    with ih dn False show ?thesis
      by (simp add: upt_Suc_shift ac_simps del: upt_Suc args_loop.simps)
  qed
qed


lemma dict_set_entries: "set (dict_set k v d) \<subseteq> insert (k, v) (set d)"
  by (induction d) auto

lemma kwargs_loop_entries:
  "(n, v) \<in> set (kwargs_loop kd xs d) \<Longrightarrow>
     (n, v) \<in> set d
     \<or> (n \<in> set xs \<and> (v = NO_DEFAULT \<or> (\<exists>m w. kd = Some m \<and> m n = Some w \<and> v = Default w)))"
proof (induction xs arbitrary: d)
  case Nil
  then show ?case by simp
next
  case (Cons x xs)
  obtain u where u: "kwargs_loop kd (x # xs) d = kwargs_loop kd xs (dict_set x u d)"
    and uv: "u = NO_DEFAULT \<or> (\<exists>m w. kd = Some m \<and> m x = Some w \<and> u = Default w)"
    by (cases kd; cases "the kd x") auto
  from Cons.prems u have "(n, v) \<in> set (kwargs_loop kd xs (dict_set x u d))" by simp
  from Cons.IH[OF this] show ?case
  proof
    assume "(n, v) \<in> set (dict_set x u d)"
    with dict_set_entries[of x u d] have "(n, v) = (x, u) \<or> (n, v) \<in> set d" by auto
    with uv show ?thesis by auto
  next
    assume "n \<in> set xs \<and> (v = NO_DEFAULT \<or> (\<exists>m w. kd = Some m \<and> m n = Some w \<and> v = Default w))"
    then show ?thesis by auto
  qed
qed

lemma declared_kwdefaults_iff:
  "(n, w) \<in> set (declared_kwdefaults spec)
     \<longleftrightarrow> n \<in> set (kwonlyargs spec) \<and> (\<exists>m. kwonlydefaults spec = Some m \<and> m n = Some w)"
proof (cases "kwonlydefaults spec")
  case None
  then show ?thesis by (simp add: declared_kwdefaults_def)
next
  case (Some m)
  have "(n, w) \<in> set (declared_kwdefaults spec) \<longleftrightarrow> n \<in> set (kwonlyargs spec) \<and> m n = Some w"
    by (auto simp: declared_kwdefaults_def Some split: option.splits)
  with Some show ?thesis by simp
qed

lemma ignore_loop_entries_subset:
  "set (allArgs (ignore_loop xs s)) \<subseteq> set (allArgs s)
   \<and> set (allKwargs (ignore_loop xs s)) \<subseteq> set (allKwargs s)"
proof (induction xs arbitrary: s)
  case Nil
  then show ?case by simp
next
  case (Cons x xs)
  show ?case
    using Cons.IH[of "s\<lparr>allArgs := dict_remove x (allArgs s)\<rparr>"]
          Cons.IH[of "s\<lparr>allKwargs := dict_remove x (allKwargs s)\<rparr>"]
          Cons.IH[of s]
    by (auto simp: dict_remove_def)
qed

lemma ignore_loop_keeps:
  "(n, v) \<in> set (allArgs s) \<Longrightarrow> n \<notin> set xs \<Longrightarrow> (n, v) \<in> set (allArgs (ignore_loop xs s))"
proof (induction xs arbitrary: s)
  case Nil
  then show ?case by simp
next
  case (Cons x xs)
  from Cons.prems have nx: "n \<noteq> x" and nxs: "n \<notin> set xs" by auto
  have "(n, v) \<in> set (dict_remove x (allArgs s))"
    using Cons.prems(1) nx by (simp add: dict_remove_def)
  then show ?case
    using Cons.IH[of "s\<lparr>allArgs := dict_remove x (allArgs s)\<rparr>", OF _ nxs]
          Cons.IH[of "s\<lparr>allKwargs := dict_remove x (allKwargs s)\<rparr>", OF _ nxs]
          Cons.IH[of s, OF _ nxs] Cons.prems(1)
    by simp
qed

lemma apply_ignoreArgs_entries:
  "set (allArgs (apply_ignoreArgs spec ign s)) \<subseteq> set (allArgs s)
   \<and> set (allKwargs (apply_ignoreArgs spec ign s)) \<subseteq> set (allKwargs s)"
  using apply_ignoreArgs_dicts[of spec ign s] ignore_loop_entries_subset by metis

lemma apply_ignoreArgs_keeps:
  assumes "(n, v) \<in> set (allArgs s)" and "\<forall>l. ign = Some l \<longrightarrow> n \<notin> set l"
  shows "(n, v) \<in> set (allArgs (apply_ignoreArgs spec ign s))"
proof (cases ign)
  case None
  with assms(1) show ?thesis by (simp add: apply_ignoreArgs_def)
next
  case (Some l)
  with assms(2) have "n \<notin> set l" by simp
  from ignore_loop_keeps[OF assms(1) this] Some assms(1) show ?thesis
    by (simp add: apply_ignoreArgs_def Let_def)
qed

lemma apply_ignoreArgs_distinct:
  "distinct (keys (allArgs s) @ keys (allKwargs s))
     \<Longrightarrow> distinct (keys (allArgs (apply_ignoreArgs spec ign s))
                   @ keys (allKwargs (apply_ignoreArgs spec ign s)))"
  using apply_ignoreArgs_dicts[of spec ign s] ignore_loop_distinct by metis

lemma setupAutoTopic_loop_found:
  assumes "\<exists>p\<in>set c. snd p = Default AUTO_TOPIC"
      and "\<forall>p\<in>set c. snd p = Default AUTO_TOPIC \<longrightarrow> fst p = n"
      and "n \<in> set (keys (allArgs s))"
  shows "setupAutoTopic_loop c s
     = Inr (s\<lparr>autoTopicArgName := Some n, allArgs := dict_remove n (allArgs s)\<rparr>)"
  using assms(1,2)
proof (induction c)
  case Nil
  then show ?case by simp
next
  case (Cons p c)
  show ?case
  proof (cases "snd p = Default AUTO_TOPIC")
    case True
    with Cons.prems(2) have "fst p = n" by simp
    with True assms(3) show ?thesis
      by (simp add: dict_del_def contains_key_def bindE_def)
  next
    case False
    with Cons.prems have "\<exists>p\<in>set c. snd p = Default AUTO_TOPIC"
      and "\<forall>p\<in>set c. snd p = Default AUTO_TOPIC \<longrightarrow> fst p = n" by auto
    from Cons.IH[OF this] False show ?thesis by simp
  qed
qed

lemma receiver_not_ordinary:
  assumes "distinct as" and "k < length as" and "as ! k \<in> set (drop 1 as)"
  shows "k \<noteq> 0"
proof
  assume k: "k = 0"
  from assms(2) obtain a list where c: "as = a # list" by (cases as) auto
  with k have "as ! k = a" by simp
  with assms(1,3) c show False by simp
qed

lemma recorded_name_absent:
  assumes raw: "getRawFunction callable = Inr (func, firstArgIdx)"
      and vn: "valid_names (getfullargspec func)"
      and ok: "getArgs callable ignoreArgs = Inr info"
      and at: "autoTopicArgName info = Some n"
  shows "n \<notin> set (getRequiredArgs info) \<and> n \<notin> set (getOptionalArgs info)
       \<and> n \<in> set (getAllArgs info)"
proof -
  from ok raw have ci: "CallArgsInfo_init func firstArgIdx ignoreArgs = Inr info"
    by (simp add: getArgs_supported)
  from init_structure[OF ci vn] obtain s where
    fin: "setupAutoTopic s = Inr info"
    and ap: "allParams s = non_receiver_params firstArgIdx (getfullargspec func)"
    and sa: "set (keys (allArgs s)) \<subseteq> set (ordinary_params firstArgIdx (getfullargspec func))"
    and ds: "distinct (keys (allArgs s) @ keys (allKwargs s))"
    and none: "autoTopicArgName s = None"
    by blast
  from setupAutoTopic_result[OF fin ds] at none obtain m where
    m: "(m, Default AUTO_TOPIC) \<in> set (allArgs s)"
       "info = s\<lparr>autoTopicArgName := Some m, allArgs := dict_remove m (allArgs s)\<rparr>"
    by auto
  from m(2) at have nm: "m = n" by simp
  from m(1) have inA: "n \<in> set (keys (allArgs s))" unfolding nm keys_def by force
  with ds have notK: "n \<notin> set (keys (allKwargs s))" by auto
  have notA: "n \<notin> set (keys (allArgs info))" using m(2) nm by (simp add: keys_dict_remove)
  have kw: "allKwargs info = allKwargs s" using m(2) by simp
  have absent: "n \<notin> set (keys (allArgs info)) \<union> set (keys (allKwargs info))"
    using notA notK kw by simp
  have "n \<in> set (allParams info)"
    using inA sa ap m(2) by (auto simp: non_receiver_params_def)
  with absent required_optional_subset[of info] show ?thesis
    by (auto simp: getAllArgs_def)
qed

section \<open>The claims\<close>

text \<open>
  C1. The claim: the last D ordinary parameters receive the D declared defaults in
  order and every earlier one is recorded as \<open>NO_DEFAULT\<close>; for \<open>f(a, b=1, *, c, d=2)\<close>
  the required names are \<open>a\<close> and \<open>c\<close> and the optional names are \<open>b\<close> and \<open>d\<close>.
  The code compares the index with \<open>len(args) - len(argsDefaults) - 1\<close>, so the last
  parameter without a default takes the branch of the defaults and reads
  \<open>argsDefaults[-1]\<close>: on this function the required names are \<open>c\<close> alone and the
  optional names are \<open>a\<close>, \<open>b\<close>, \<open>d\<close>.
\<close>

theorem defaults_off_by_one:
  "map_sum id getRequiredArgs (getArgs example_f None) = Inr [''c'']
   \<and> map_sum id getOptionalArgs (getArgs example_f None) = Inr [''a'', ''b'', ''d'']"
  by code_simp

text \<open>
  The same defect on the callable object whose call operator is
  \<open>__call__(self, x, y=AUTO_TOPIC)\<close>: \<open>x\<close> is stored with the last default, the marker, so
  the scan records \<open>x\<close> and leaves \<open>y\<close> among the optional names.
\<close>

lemma functor_topic_slip:
  "map_sum id autoTopicArgName (getArgs example_functor None) = Inr (Some ''x'')
   \<and> map_sum id getOptionalArgs (getArgs example_functor None) = Inr [''y'']
   \<and> map_sum id getAllArgs (getArgs example_functor None) = Inr [''x'', ''y'']"
  by code_simp

text \<open>
  C2, as the code has it. Take a callable with a valid signature in which exactly one
  parameter has the marker as its declared default, that parameter being an ordinary
  parameter other than the receiver and not named in the exclusion list; and let the
  marker not be the last default, or every ordinary parameter have a default, or the
  only ordinary parameter without a default be the skipped receiver. Then the
  constructor returns a descriptor, that parameter's name is recorded as
  \<open>autoTopicArgName\<close>, and the name is absent from \<open>getRequiredArgs()\<close> and from
  \<open>getOptionalArgs()\<close>, while it is still present in \<open>getAllArgs()\<close>, which is fixed before
  the removal.
\<close>

theorem sole_marker_param_recorded:
  assumes raw: "getRawFunction callable = Inr (func, firstArgIdx)"
      and vn: "valid_names (getfullargspec func)"
      and df: "defaults (getfullargspec func) = Some ds"
      and len: "length ds \<le> length (spec_args (getfullargspec func))"
      and one: "marker_params (getfullargspec func) = [n]"
      and ord: "n \<in> set (ordinary_params firstArgIdx (getfullargspec func))"
      and noslip: "last ds \<noteq> AUTO_TOPIC
                   \<or> length ds = length (spec_args (getfullargspec func))
                   \<or> (length (spec_args (getfullargspec func)) = length ds + 1 \<and> 0 < firstArgIdx)"
      and notign: "\<forall>l. ignoreArgs = Some l \<longrightarrow> n \<notin> set l"
  shows "\<exists>info. getArgs callable ignoreArgs = Inr info
           \<and> autoTopicArgName info = Some n
           \<and> n \<notin> set (getRequiredArgs info)
           \<and> n \<notin> set (getOptionalArgs info)
           \<and> n \<in> set (getAllArgs info)"
proof -
  define spec where "spec = getfullargspec func"
  define as where "as = spec_args spec"
  define N where "N = length as"
  define D where "D = length ds"
  note df' = df[folded spec_def]
  have DN: "D \<le> N" using len by (simp add: D_def N_def as_def spec_def)
  have das: "distinct as" and dk: "distinct (kwonlyargs spec)"
    and dj: "set as \<inter> set (kwonlyargs spec) = {}"
    using vn by (auto simp: valid_names_def spec_def as_def)
  have ord_sub: "set (ordinary_params firstArgIdx spec) \<subseteq> set as"
    by (auto simp: ordinary_params_def as_def dest: in_set_dropD)
  have n_as: "n \<in> set as" using ord ord_sub by (auto simp: spec_def)
  have n_kw: "n \<notin> set (kwonlyargs spec)" using n_as dj by auto
  have mem: "n \<in> set (marker_params spec)" using one by (simp add: spec_def)
  have uniq: "fst p = n"
    if "p \<in> set (declared_defaults spec @ declared_kwdefaults spec)" "snd p = AUTO_TOPIC" for p
  proof -
    from that have "fst p \<in> set (marker_params spec)"
      unfolding marker_params_def by force
    with one show ?thesis by (simp add: spec_def)
  qed
  from mem obtain p where p: "p \<in> set (declared_defaults spec @ declared_kwdefaults spec)"
    "snd p = AUTO_TOPIC" "fst p = n"
    unfolding marker_params_def by auto
  have "p \<notin> set (declared_kwdefaults spec)"
  proof
    assume "p \<in> set (declared_kwdefaults spec)"
    then have "(n, AUTO_TOPIC) \<in> set (declared_kwdefaults spec)" using p(2,3) by (metis prod.collapse)
    with n_kw show False by (simp add: declared_kwdefaults_iff)
  qed
  with p(1) have "p \<in> set (declared_defaults spec)" by simp
  then have pz: "p \<in> set (zip (drop (N - D) as) ds)"
    using df' by (simp add: declared_defaults_def N_def D_def as_def)
  then obtain k0 where k0: "drop (N - D) as ! k0 = n" "ds ! k0 = AUTO_TOPIC"
    "k0 < length (drop (N - D) as)" "k0 < D"
    using p(2,3) by (auto simp: in_set_zip D_def)
  have Dpos: "0 < D" using k0(4) by simp
  define q where "q = N - D + k0"
  have qN: "q < N" using k0(3) by (simp add: q_def N_def)
  have asq: "as ! q = n" using k0(1) DN by (simp add: q_def N_def)
  define a where "a = map (\<lambda>k. (as ! k, stored_default N ds (int k)))
                         (filter (\<lambda>k. \<not> (int k = 0 \<and> 0 < firstArgIdx)) [0..<N])"
  have loop: "args_loop firstArgIdx (defaults spec) (argsDefaults_startsAt as (defaults spec)) 0 as [] = Inr a"
    using args_loop_defaults[of 0 as N "[]" ds firstArgIdx] das DN Dpos
    by (simp add: df' argsDefaults_startsAt_def N_def D_def a_def keys_def)
  have q_kept: "\<not> (int q = 0 \<and> 0 < firstArgIdx)"
  proof
    assume c: "int q = 0 \<and> 0 < firstArgIdx"
    then have "n \<in> set (drop 1 as)" using ord by (simp add: ordinary_params_def as_def spec_def)
    with receiver_not_ordinary[OF das, of q] qN asq have "q \<noteq> 0" by (simp add: N_def)
    with c show False by simp
  qed
  have "stored_default N ds (int q) = Default (ds ! k0)"
    using DN by (simp add: stored_default_def q_def D_def nat_diff_distrib')
  then have F2: "(n, Default AUTO_TOPIC) \<in> set a"
    using qN q_kept asq k0(2) by (force simp: a_def)
  have F3: "m = n" if "(m, Default AUTO_TOPIC) \<in> set a" for m
  proof -
    from that obtain k where k: "k < N" "\<not> (int k = 0 \<and> 0 < firstArgIdx)" "m = as ! k"
      "stored_default N ds (int k) = Default AUTO_TOPIC"
      by (auto simp: a_def)
    consider (before) "int k < int N - int D - 1" | (at) "int k = int N - int D - 1"
      | (after) "int N - int D - 1 < int k" by linarith
    then show ?thesis
    proof cases
      case before
      with k(4) show ?thesis by (simp add: stored_default_def D_def)
    next
      case at
      with k(4) have l: "last ds = AUTO_TOPIC" by (simp add: stored_default_def D_def)
      from at have "N \<noteq> D" by linarith
      moreover from at k(2) have "\<not> (N = D + 1 \<and> 0 < firstArgIdx)" by auto
      ultimately show ?thesis using noslip l by (simp add: N_def D_def as_def spec_def)
    next
      case after
      define j where "j = k - (N - D)"
      have j: "j < D" "k = N - D + j" using after k(1) DN by (auto simp: j_def)
      have "nat (int k - (int N - int D)) = j" using after DN by (simp add: j_def)
      with after k(4) have dj': "ds ! j = AUTO_TOPIC" by (simp add: stored_default_def D_def)
      have "drop (N - D) as ! j = as ! k" using j DN by (simp add: N_def)
      moreover have "j < length (drop (N - D) as)" using j k(1) by (simp add: N_def)
      ultimately have "(as ! k, AUTO_TOPIC) \<in> set (zip (drop (N - D) as) ds)"
        using j(1) dj' by (auto simp: in_set_zip D_def)
      then have "(as ! k, AUTO_TOPIC) \<in> set (declared_defaults spec)"
        using df' by (simp add: declared_defaults_def N_def D_def as_def)
      then have "fst (as ! k, AUTO_TOPIC) = n" by (intro uniq) simp_all
      with k(3) show ?thesis by simp
    qed
  qed
  define kw where "kw = kwargs_loop (kwonlydefaults spec) (kwonlyargs spec) []"
  have FK: "v \<noteq> Default AUTO_TOPIC" if "(m, v) \<in> set kw" for m v
  proof
    assume v: "v = Default AUTO_TOPIC"
    from kwargs_loop_entries[OF that[unfolded kw_def]] v
    have m: "m \<in> set (kwonlyargs spec)" and "\<exists>mp. kwonlydefaults spec = Some mp \<and> mp m = Some AUTO_TOPIC"
      by auto
    then have "(m, AUTO_TOPIC) \<in> set (declared_kwdefaults spec)"
      by (simp add: declared_kwdefaults_iff)
    then have "fst (m, AUTO_TOPIC) = n" by (intro uniq) simp_all
    with m n_kw show False by simp
  qed
  define s0 where "s0 = \<lparr>allArgs = a, allKwargs = kw,
      acceptsAllKwargs = (varkw spec \<noteq> None), acceptsAllUnnamedArgs = (varargs spec \<noteq> None),
      allParams = keys a @ keys kw, numRequired = 0, autoTopicArgName = None\<rparr>"
  define s1 where "s1 = apply_ignoreArgs spec ignoreArgs s0"
  define s where "s = s1\<lparr>numRequired := count_required s1, autoTopicArgName := None\<rparr>"
  have init: "CallArgsInfo_init func firstArgIdx ignoreArgs = setupAutoTopic s"
    using loop by (simp add: init_unfold bindE_def s_def s1_def s0_def kw_def as_def spec_def)
  have ka: "keys a = ordinary_params firstArgIdx spec"
    using args_loop_keys[OF _ _ loop] das by (simp add: ordinary_params_def keys_def as_def)
  have kk: "keys kw = kwonlyargs spec"
    using kwargs_loop_keys[of "[]" "kwonlyargs spec" "kwonlydefaults spec"] dk
    by (simp add: kw_def keys_def)
  have "distinct (ordinary_params firstArgIdx spec)"
    using das by (simp add: ordinary_params_def as_def)
  then have d0: "distinct (keys (allArgs s0) @ keys (allKwargs s0))"
    using ka kk dk dj ord_sub by (auto simp: s0_def)
  have ds: "distinct (keys (allArgs s) @ keys (allKwargs s))"
    using apply_ignoreArgs_distinct[OF d0, of spec ignoreArgs] by (simp add: s_def s1_def)
  have subA: "set (allArgs s) \<subseteq> set a" and subK: "set (allKwargs s) \<subseteq> set kw"
    using apply_ignoreArgs_entries[of spec ignoreArgs s0] by (simp_all add: s_def s1_def s0_def)
  have inA: "(n, Default AUTO_TOPIC) \<in> set (allArgs s)"
    using apply_ignoreArgs_keeps[of n "Default AUTO_TOPIC" s0 ignoreArgs spec] F2 notign
    by (simp add: s_def s1_def s0_def)
  have c: "combinedDict s = allArgs s @ allKwargs s"
    using ds by (simp add: combinedDict_def combined_disjoint)
  have ex: "\<exists>p\<in>set (allArgs s @ allKwargs s). snd p = Default AUTO_TOPIC"
    using inA by force
  have un: "\<forall>p\<in>set (allArgs s @ allKwargs s). snd p = Default AUTO_TOPIC \<longrightarrow> fst p = n"
  proof (intro ballI impI)
    fix p assume p: "p \<in> set (allArgs s @ allKwargs s)" "snd p = Default AUTO_TOPIC"
    then have e: "p = (fst p, Default AUTO_TOPIC)" by (metis prod.collapse)
    from p(1) show "fst p = n"
    proof (simp only: set_append Un_iff, elim disjE)
      assume "p \<in> set (allArgs s)"
      with subA e have "(fst p, Default AUTO_TOPIC) \<in> set a" by auto
      then show ?thesis by (rule F3)
    next
      assume "p \<in> set (allKwargs s)"
      with subK e have "(fst p, Default AUTO_TOPIC) \<in> set kw" by auto
      with FK show ?thesis by blast
    qed
  qed
  have nk: "n \<in> set (keys (allArgs s))" using inA by (force simp: keys_def)
  define info where "info = s\<lparr>autoTopicArgName := Some n, allArgs := dict_remove n (allArgs s)\<rparr>"
  have "setupAutoTopic s = Inr info"
    unfolding setupAutoTopic_def c info_def
    by (rule setupAutoTopic_loop_found[OF ex un nk])
  with init raw have ok: "getArgs callable ignoreArgs = Inr info"
    by (simp add: getArgs_supported)
  have at: "autoTopicArgName info = Some n" by (simp add: info_def)
  from recorded_name_absent[OF raw vn ok at] ok at show ?thesis by blast
qed

theorem sole_marker_param_recorded_witness:
  "getRawFunction example_docstring_listener = Inr (example_docstring_func, 1)
   \<and> valid_names (getfullargspec example_docstring_func)
   \<and> defaults (getfullargspec example_docstring_func) = Some [AUTO_TOPIC, PyNone]
   \<and> length [AUTO_TOPIC, PyNone] \<le> length (spec_args (getfullargspec example_docstring_func))
   \<and> marker_params (getfullargspec example_docstring_func) = [''arg2'']
   \<and> ''arg2'' \<in> set (ordinary_params 1 (getfullargspec example_docstring_func))
   \<and> last [AUTO_TOPIC, PyNone] \<noteq> AUTO_TOPIC
   \<and> ''arg2'' \<notin> set [''arg3'']
   \<and> (\<exists>info. getArgs example_docstring_listener (Some [''arg3'']) = Inr info
          \<and> autoTopicArgName info = Some ''arg2''
          \<and> ''arg2'' \<notin> set (getRequiredArgs info)
          \<and> ''arg2'' \<notin> set (getOptionalArgs info)
          \<and> ''arg2'' \<in> set (getAllArgs info))"
proof -
  have h1: "getRawFunction example_docstring_listener = Inr (example_docstring_func, 1)"
    by (simp add: example_docstring_listener_def)
  have h2: "valid_names (getfullargspec example_docstring_func)" by code_simp
  have h3: "defaults (getfullargspec example_docstring_func) = Some [AUTO_TOPIC, PyNone]"
    by (simp add: example_docstring_func_def)
  have h4: "length [AUTO_TOPIC, PyNone] \<le> length (spec_args (getfullargspec example_docstring_func))"
    by (simp add: example_docstring_func_def)
  have h5: "marker_params (getfullargspec example_docstring_func) = [''arg2'']" by code_simp
  have h6: "''arg2'' \<in> set (ordinary_params 1 (getfullargspec example_docstring_func))"
    by code_simp
  have h7: "last [AUTO_TOPIC, PyNone] \<noteq> AUTO_TOPIC
            \<or> length [AUTO_TOPIC, PyNone] = length (spec_args (getfullargspec example_docstring_func))
            \<or> (length (spec_args (getfullargspec example_docstring_func)) = length [AUTO_TOPIC, PyNone] + 1
                \<and> 0 < (1::int))"
    by (simp add: AUTO_TOPIC_def)
  have h8: "\<forall>l. Some [''arg3''] = Some l \<longrightarrow> ''arg2'' \<notin> set l" by simp
  have h9: "last [AUTO_TOPIC, PyNone] \<noteq> AUTO_TOPIC" by (simp add: AUTO_TOPIC_def)
  from sole_marker_param_recorded[OF h1 h2 h3 h4 h5 h6 h7 h8] h1 h2 h3 h4 h5 h6 h9
  show ?thesis by simp
qed

text \<open>
  C2, as the claim states it, at \<open>on_msg(topic=AUTO_TOPIC, value=None)\<close>: \<open>topic\<close> is the
  one parameter whose default is the marker and it is recorded, but it is not absent from
  \<open>getAllArgs()\<close>.
\<close>

theorem recorded_topic_in_getAllArgs_counterexample:
  "marker_params (getfullargspec example_on_msg_func) = [''topic'']
   \<and> map_sum id autoTopicArgName (getArgs example_on_msg None) = Inr (Some ''topic'')
   \<and> map_sum id getAllArgs (getArgs example_on_msg None) = Inr [''topic'', ''value'']"
  by code_simp

text \<open>
  C3. The claim: the parameter names of a descriptor built with exclusions differ from
  those built without by exactly the excluded names. In the code \<open>allParams\<close> is fixed
  before the exclusions are applied: for the bound method \<open>Handler.on_msg(self, a, b)\<close>
  and the exclusion list \<open>['b']\<close>, \<open>getAllArgs()\<close> is \<open>('a', 'b')\<close>, the same as with no
  exclusion.
\<close>

theorem getAllArgs_keeps_excluded:
  "map_sum id getAllArgs (getArgs example_method (Some [''b''])) = Inr [''a'', ''b'']
   \<and> map_sum id getAllArgs (getArgs example_method None) = Inr [''a'', ''b'']"
  by code_simp

text \<open>
  C4. The claim: construction succeeds for every valid signature, also for a
  keyword-only parameter whose default is the marker. For \<open>g(*, t=AUTO_TOPIC)\<close> the
  scan finds \<open>t\<close> in the combined dict and deletes it from \<open>allArgs\<close>, where it is not:
  the constructor raises \<open>KeyError\<close>.
\<close>

theorem kwonly_topic_raises:
  "getArgs example_kwonly_topic None = Inl (KeyError ''t'')"
  by code_simp

text \<open>
  C5. A function is classified as itself with offset 0, a bound method as itself with
  offset 1, a callable object as its \<open>__call__\<close> with offset 1; and for a callable that
  is not a function, the receiver (the first ordinary parameter of the signature) is in
  none of \<open>getAllArgs()\<close>, \<open>getRequiredArgs()\<close>, \<open>getOptionalArgs()\<close>.
\<close>

theorem classifier_contract:
  assumes nf: "\<not> isfunction callable"
      and raw: "getRawFunction callable = Inr (func, firstArgIdx)"
      and vn: "valid_names (getfullargspec func)"
      and rc: "spec_args (getfullargspec func) = receiver # rest"
      and ok: "getArgs callable ignoreArgs = Inr info"
  shows "getRawFunction (Func (Function fname fmodl fspec)) = Inr (Function fname fmodl fspec, 0)
       \<and> getRawFunction (Func (Method cls mmodl mname mspec)) = Inr (Method cls mmodl mname mspec, 1)
       \<and> getRawFunction (Instance icls imodl (Some call)) = Inr (call, 1)
       \<and> firstArgIdx = 1
       \<and> receiver \<notin> set (getAllArgs info)
       \<and> receiver \<notin> set (getRequiredArgs info)
       \<and> receiver \<notin> set (getOptionalArgs info)"
proof -
  have off: "firstArgIdx = 1"
  proof (cases callable)
    case (Func f)
    with nf raw show ?thesis by (cases f) simp_all
  next
    case (Instance c m call)
    with raw show ?thesis by (cases call) (simp_all add: bindE_def split: sum.splits)
  qed
  from ok raw have ci: "CallArgsInfo_init func firstArgIdx ignoreArgs = Inr info"
    by (simp add: getArgs_supported)
  from init_structure[OF ci vn] obtain s where
    fin: "setupAutoTopic s = Inr info"
    and ap: "allParams s = non_receiver_params firstArgIdx (getfullargspec func)"
    and sa: "set (keys (allArgs s)) \<subseteq> set (ordinary_params firstArgIdx (getfullargspec func))"
    and sk: "set (keys (allKwargs s)) \<subseteq> set (kwonlyargs (getfullargspec func))"
    and ds: "distinct (keys (allArgs s) @ keys (allKwargs s))"
    by blast
  from vn rc have r1: "receiver \<notin> set rest" and r2: "receiver \<notin> set (kwonlyargs (getfullargspec func))"
    by (auto simp: valid_names_def)
  have op: "ordinary_params firstArgIdx (getfullargspec func) = rest"
    using off rc by (simp add: ordinary_params_def)
  from setupAutoTopic_keys[OF fin ds] have
    ka: "set (keys (allArgs info)) \<subseteq> set (keys (allArgs s))"
    and kk: "allKwargs info = allKwargs s" and pp: "allParams info = allParams s" by simp_all
  have a: "receiver \<notin> set (getAllArgs info)"
    using pp ap op r1 r2 by (simp add: getAllArgs_def non_receiver_params_def)
  have "receiver \<notin> set (keys (allArgs info)) \<union> set (keys (allKwargs info))"
    using ka kk sa sk op r1 r2 by auto
  with required_optional_subset[of info]
  have b: "receiver \<notin> set (getRequiredArgs info)" and c: "receiver \<notin> set (getOptionalArgs info)"
    by auto
  from off a b c show ?thesis by simp
qed

theorem classifier_contract_witness:
  "\<not> isfunction example_method
   \<and> getRawFunction example_method = Inr (example_method_func, 1)
   \<and> valid_names (getfullargspec example_method_func)
   \<and> spec_args (getfullargspec example_method_func) = ''self'' # [''a'', ''b'']
   \<and> getArgs example_method (Some [''b'']) = Inr example_method_info
   \<and> ''self'' \<notin> set (getAllArgs example_method_info)
   \<and> ''self'' \<notin> set (getRequiredArgs example_method_info)
   \<and> ''self'' \<notin> set (getOptionalArgs example_method_info)"
proof -
  have h1: "\<not> isfunction example_method" by code_simp
  have h2: "getRawFunction example_method = Inr (example_method_func, 1)"
    by (simp add: example_method_def example_method_func_def)
  have h3: "valid_names (getfullargspec example_method_func)" by code_simp
  have h4: "spec_args (getfullargspec example_method_func) = ''self'' # [''a'', ''b'']" by code_simp
  have h5: "getArgs example_method (Some [''b'']) = Inr example_method_info" by code_simp
  from classifier_contract[OF h1 h2 h3 h4 h5] h1 h2 h3 h4 h5 show ?thesis by simp
qed

text \<open>
  C6. For a value that is not a function, not a bound method and has no \<open>__call__\<close>,
  \<open>getArgs\<close> raises a \<open>ListenerMismatchError\<close> whose rendering contains the name of the
  value's type; no descriptor is returned.
\<close>

theorem unsupported_callable_raises:
  assumes "\<not> isfunction callable" and "\<not> ismethod callable" and "\<not> hasattr_call callable"
  shows "\<exists>e. getArgs callable ignoreArgs = Inl (ListenerMismatch e)
           \<and> sublist (type_name callable) (ListenerMismatchError_str e)"
proof -
  obtain cls modl where c: "callable = Instance cls modl None"
  proof (cases callable)
    case (Func f)
    with assms(3) show ?thesis by simp
  next
    case (Instance c m call)
    with assms(3) that show ?thesis by simp
  qed
  let ?expl = "''type \"'' @ cls @ ''\" not supported''"
  let ?modl = "getModule modl"
  let ?e = "\<lparr>msg = ''Listener \"'' @ cls @ ''\" (from module \"'' @ ?modl @ ''\") inadequate: '' @ ?expl,
             module = ?modl, idStr = cls, args = []\<rparr>"
  have raw: "getRawFunction callable = Inl (ValueError ?expl)"
    unfolding c by (simp add: pyformat_type_not_supported bindE_def del: pyformat.simps)
  have id: "getID callable = Inr (cls, ?modl)" unfolding c by simp
  have res: "getArgs callable ignoreArgs = Inl (ListenerMismatch ?e)"
    unfolding getArgs_def raw
    by (simp add: ListenerMismatchError_init_value[OF id] bindE_def)
  have "sublist cls (''Listener \"'' @ cls @ (''\" (from module \"'' @ ?modl @ ''\") inadequate: '' @ ?expl))"
    by (rule sublist_appendI)
  then have "sublist (type_name callable) (ListenerMismatchError_str ?e)"
    by (simp add: c ListenerMismatchError_str_def)
  with res show ?thesis by blast
qed

theorem unsupported_callable_raises_witness:
  "\<not> isfunction example_not_callable \<and> \<not> ismethod example_not_callable
   \<and> \<not> hasattr_call example_not_callable
   \<and> (\<exists>e. getArgs example_not_callable None = Inl (ListenerMismatch e)
          \<and> sublist (type_name example_not_callable) (ListenerMismatchError_str e))"
proof -
  have h1: "\<not> isfunction example_not_callable" by code_simp
  have h2: "\<not> ismethod example_not_callable" by code_simp
  have h3: "\<not> hasattr_call example_not_callable" by code_simp
  from unsupported_callable_raises[OF h1 h2 h3, of None] h1 h2 h3 show ?thesis by simp
qed

text \<open>
  C7. After the exclusions and the removal of the auto-topic parameter, \<open>numRequired\<close>
  is the number of names in \<open>getRequiredArgs()\<close>, which is also the cardinality of that
  set of names, and it is not negative.
\<close>

theorem numRequired_is_count:
  assumes ok: "CallArgsInfo_init func firstArgIdx ignoreArgs = Inr info"
      and vn: "valid_names (getfullargspec func)"
  shows "numRequired info = int (length (getRequiredArgs info))
       \<and> numRequired info = int (card (set (getRequiredArgs info)))
       \<and> 0 \<le> numRequired info"
proof -
  from init_structure[OF ok vn] obtain s where
    fin: "setupAutoTopic s = Inr info"
    and ds: "distinct (keys (allArgs s) @ keys (allKwargs s))"
    and nr: "numRequired s = count_required s"
    by blast
  let ?P = "\<lambda>p. isinstance_NO_DEFAULT (snd p)"
  have cnt: "count_required t = int (length (getRequiredArgs t))" for t
    by (simp add: count_required_def getRequiredArgs_def values_of_def filter_map o_def)
  have req: "getRequiredArgs info = getRequiredArgs s \<and> numRequired info = numRequired s"
    using setupAutoTopic_result[OF fin ds]
  proof
    assume "info = s"
    then show ?thesis by simp
  next
    assume "\<exists>n. (n, Default AUTO_TOPIC) \<in> set (allArgs s)
            \<and> info = s\<lparr>autoTopicArgName := Some n, allArgs := dict_remove n (allArgs s)\<rparr>"
    then obtain n where n: "(n, Default AUTO_TOPIC) \<in> set (allArgs s)"
      "info = s\<lparr>autoTopicArgName := Some n, allArgs := dict_remove n (allArgs s)\<rparr>" by blast
    have "distinct (keys (allArgs s))" using ds by simp
    then have "filter ?P (dict_remove n (allArgs s)) = filter ?P (allArgs s)"
      using n(1) by (intro filter_dict_remove[where v = "Default AUTO_TOPIC"]) simp_all
    with n(2) show ?thesis by (simp add: getRequiredArgs_def)
  qed
  have len: "numRequired info = int (length (getRequiredArgs info))"
    using req nr cnt[of s] by simp
  have "distinct (map fst (allArgs s @ allKwargs s))" using ds by (simp add: keys_def)
  then have "distinct (getRequiredArgs s)"
    unfolding getRequiredArgs_def by (rule distinct_map_filter)
  then have "card (set (getRequiredArgs info)) = length (getRequiredArgs info)"
    using req by (simp add: distinct_card)
  with len show ?thesis by simp
qed

theorem numRequired_is_count_witness:
  "CallArgsInfo_init example_method_func 1 (Some [''b'']) = Inr example_method_info
   \<and> valid_names (getfullargspec example_method_func)
   \<and> numRequired example_method_info = int (length (getRequiredArgs example_method_info))
   \<and> numRequired example_method_info = int (card (set (getRequiredArgs example_method_info)))
   \<and> 0 \<le> numRequired example_method_info"
proof -
  have h1: "CallArgsInfo_init example_method_func 1 (Some [''b'']) = Inr example_method_info"
    by code_simp
  have h2: "valid_names (getfullargspec example_method_func)" by code_simp
  from numRequired_is_count[OF h1 h2] h1 h2 show ?thesis by simp
qed

text \<open>
  C8. An entry of the exclusion list that names no parameter left after the receiver
  and neither catch-all parameter changes nothing: \<open>getArgs\<close> with the entry returns
  what \<open>getArgs\<close> without it returns, an equal descriptor where one is built, so the
  entry raises no error of its own.
\<close>

theorem absent_exclusion_is_noop:
  assumes raw: "getRawFunction callable = Inr (func, firstArgIdx)"
      and np: "e \<notin> set (non_receiver_params firstArgIdx (getfullargspec func))"
      and nv: "varargs (getfullargspec func) \<noteq> Some e"
      and nk: "varkw (getfullargspec func) \<noteq> Some e"
  shows "getArgs callable (Some (xs @ e # ys)) = getArgs callable (Some (xs @ ys))"
proof -
  define spec where "spec = getfullargspec func"
  define r where "r = args_loop firstArgIdx (defaults spec)
      (argsDefaults_startsAt (spec_args spec) (defaults spec)) 0 (spec_args spec) []"
  have "CallArgsInfo_init func firstArgIdx (Some (xs @ e # ys))
      = CallArgsInfo_init func firstArgIdx (Some (xs @ ys))"
  proof (cases r)
    case (Inl err)
    then show ?thesis by (simp add: init_unfold bindE_def r_def spec_def)
  next
    case (Inr a)
    define k where "k = kwargs_loop (kwonlydefaults spec) (kwonlyargs spec) []"
    define s0 where "s0 = \<lparr>allArgs = a, allKwargs = k,
      acceptsAllKwargs = (varkw spec \<noteq> None), acceptsAllUnnamedArgs = (varargs spec \<noteq> None),
      allParams = keys a @ keys k, numRequired = 0, autoTopicArgName = None\<rparr>"
    have "set (keys a) \<subseteq> set (ordinary_params firstArgIdx spec)"
      using args_loop_keys_subset[OF _ Inr[unfolded r_def]]
      by (simp add: ordinary_params_def keys_def)
    then have ea: "e \<notin> set (keys (allArgs s0))"
      using np by (auto simp: s0_def non_receiver_params_def spec_def)
    have "set (keys k) = set (kwonlyargs spec)"
      using kwargs_loop_keys_set[of "kwonlydefaults spec" "kwonlyargs spec" "[]"]
      by (simp add: k_def keys_def)
    then have ek: "e \<notin> set (keys (allKwargs s0))"
      using np by (auto simp: s0_def non_receiver_params_def spec_def)
    have "apply_ignoreArgs spec (Some (xs @ e # ys)) s0 = apply_ignoreArgs spec (Some (xs @ ys)) s0"
      using apply_ignoreArgs_absent[OF ea ek] nv nk by (simp add: spec_def)
    then show ?thesis
      using Inr by (simp add: init_unfold bindE_def r_def spec_def s0_def k_def)
  qed
  with raw show ?thesis by (simp add: getArgs_supported)
qed

theorem absent_exclusion_is_noop_witness:
  "getRawFunction example_method = Inr (example_method_func, 1)
   \<and> ''zzz'' \<notin> set (non_receiver_params 1 (getfullargspec example_method_func))
   \<and> varargs (getfullargspec example_method_func) \<noteq> Some ''zzz''
   \<and> varkw (getfullargspec example_method_func) \<noteq> Some ''zzz''
   \<and> getArgs example_method (Some ([''b''] @ ''zzz'' # [])) = getArgs example_method (Some ([''b''] @ []))
   \<and> getArgs example_method (Some ([''b''] @ [])) = Inr example_method_info"
proof -
  have h1: "getRawFunction example_method = Inr (example_method_func, 1)"
    by (simp add: example_method_def example_method_func_def)
  have h2: "''zzz'' \<notin> set (non_receiver_params 1 (getfullargspec example_method_func))" by code_simp
  have h3: "varargs (getfullargspec example_method_func) \<noteq> Some ''zzz''" by code_simp
  have h4: "varkw (getfullargspec example_method_func) \<noteq> Some ''zzz''" by code_simp
  have h5: "getArgs example_method (Some ([''b''] @ [])) = Inr example_method_info" by code_simp
  from absent_exclusion_is_noop[OF h1 h2 h3 h4, of "[''b'']" "[]"] h1 h2 h3 h4 h5
  show ?thesis by simp
qed

text \<open>
  C9. The rendering of a \<open>ListenerMismatchError\<close> built from an explanation and a
  listener is \<open>Listener "<identifier>" (from module "<module>") inadequate: <explanation>\<close>
  with the identifier and module that \<open>getID\<close> gives, and the module is \<open>__main__\<close>
  when the object has no \<open>__module__\<close>.
\<close>

theorem ListenerMismatchError_rendering:
  "\<exists>idS modl e. getID listener = Inr (idS, modl)
      \<and> ListenerMismatchError_init explanation listener extra = Inr e
      \<and> ListenerMismatchError_str e
          = ''Listener \"'' @ idS @ ''\" (from module \"'' @ modl @ ''\") inadequate: '' @ explanation
      \<and> modl = (case module_attr listener of Some m \<Rightarrow> m | None \<Rightarrow> ''__main__'')"
proof -
  from getID_total[of listener] obtain idS where
    i: "getID listener = Inr (idS, getModule (module_attr listener))" by blast
  have "getModule (module_attr listener)
      = (case module_attr listener of Some m \<Rightarrow> m | None \<Rightarrow> ''__main__'')"
    by (simp add: getModule_def)
  with i ListenerMismatchError_init_value[OF i, of explanation extra] show ?thesis
    by (simp add: ListenerMismatchError_str_def)
qed



end
